theory Spec2Isabelle
  imports Main "HOL-Library.Sublist"
begin

section \<open>Data of \<open>pyss/testing.py\<close>\<close>

text \<open>
  \<open>model.Event\<close>: the harness builds \<open>Event('start')\<close>, \<open>Event('step')\<close> and
  \<open>Event('stop')\<close> and reads nothing of an event but its \<open>name\<close>.
\<close>

datatype event = Event (name: string)

text \<open>
  A transition, as far as \<open>_create_context\<close> reads it: \<open>transition.event\<close>, which is
  \<open>None\<close> for an eventless transition.
\<close>

datatype transition = Transition (t_event: "event option")

text \<open>
  \<open>simulator.MacroStep\<close>, with the four attributes \<open>_create_context\<close> reads:
  \<open>step.event\<close> (the consumed event, or \<open>None\<close>), \<open>step.transition\<close> (the fired
  transition, or \<open>None\<close>), \<open>step.entered_states\<close> and \<open>step.exited_states\<close> (lists
  of state names). A step that is \<open>None\<close> is \<open>None :: macro_step option\<close>; a
  \<open>MacroStep\<close> object is truthy.
\<close>

record macro_step =
  event :: "event option"
  transition :: "transition option"
  entered_states :: "string list"
  exited_states :: "string list"

text \<open>
  The values \<open>_create_context\<close> stores in the context dictionary: five one-argument
  callables returning a Boolean, and the subject's evaluation context (of an arbitrary
  type \<open>'c\<close>). The argument of a callable is a Python value that is a name or \<open>None\<close>,
  hence \<open>string option\<close>.
\<close>

datatype 'c pyvalue = Callable "string option \<Rightarrow> bool" | Mapping 'c

type_synonym 'c obs_context = "(string \<times> 'c pyvalue) list"

text \<open>
  The interface of \<open>simulator.Simulator\<close> that \<open>testing.py\<close> uses, over an engine state
  \<open>'s\<close>. The class itself is not part of the verified file, so its methods are parameters:
  \<^item> \<open>sim_send\<close>: \<open>send(event)\<close>;
  \<^item> \<open>sim_execute_once\<close>: \<open>execute_once()\<close>, the new state and the step or \<open>None\<close>;
  \<^item> \<open>sim_execute\<close>: \<open>execute()\<close> as the harness uses it on a tester: the new state, and
    \<open>Some a\<close> when the call raised an \<open>AssertionError\<close> whose \<open>args\<close> are \<open>a\<close> (the
    returned list of steps is dropped by the harness);
  \<^item> \<open>sim_configuration\<close>, \<open>sim_running\<close>: the properties \<open>configuration\<close>, \<open>running\<close>;
  \<^item> \<open>sim_name\<close>: \<open>_statechart.name\<close>;
  \<^item> \<open>sim_context\<close>: \<open>evaluator.context\<close>;
  \<^item> \<open>sim_set_context\<close>: the assignment \<open>evaluator._context[key] = value\<close>.
\<close>

record ('s, 'c, 'x) simulator_class =
  sim_send :: "event \<Rightarrow> 's \<Rightarrow> 's"
  sim_execute_once :: "'s \<Rightarrow> 's \<times> macro_step option"
  sim_execute :: "'s \<Rightarrow> 's \<times> 'x option"
  sim_configuration :: "'s \<Rightarrow> string list"
  sim_running :: "'s \<Rightarrow> bool"
  sim_name :: "'s \<Rightarrow> string"
  sim_context :: "'s \<Rightarrow> 'c"
  sim_set_context :: "string \<Rightarrow> 'c pyvalue \<Rightarrow> 's \<Rightarrow> 's"

text \<open>
  A simulator object: its engine state, and the history \<open>received\<close> of the events passed
  to its \<open>send\<close> so far, oldest first. The history is what "the events delivered to a
  tester" means below; no method of the class can change it.
\<close>

record 's simulator_obj =
  received :: "event list"
  engine :: 's

text \<open>
  How \<open>str.format\<close> renders the three kinds of value that are not strings in the
  message of \<open>_execute_tester\<close>: \<open>exception.args\<close>, a configuration, and a
  \<open>MacroStep\<close>. Their \<open>__str__\<close> is outside the verified file.
\<close>

record 'x formatter =
  str_args :: "'x \<Rightarrow> string"
  str_configuration :: "string list \<Rightarrow> string"
  str_step :: "macro_step \<Rightarrow> string"

text \<open>The \<open>AssertionError\<close> the harness raises; \<open>args\<close> holds the one message.\<close>

datatype error = AssertionError (args: string)

text \<open>
  \<open>StateChartTester\<close>: the subject \<open>_simulator\<close>, the list \<open>_testers\<close> and the scenario
  \<open>_events\<close>. The subject and the testers are distinct objects.
\<close>

record 's state_chart_tester =
  simulator :: "'s simulator_obj"
  testers :: "'s simulator_obj list"
  events :: "event list"

section \<open>\<open>StateChartTester._create_context\<close>\<close>

text \<open>
  \<open>step.transition.event.name\<close> under \<open>except AttributeError\<close>: \<open>None\<close> as soon as the
  step, its transition or the transition's event is \<open>None\<close>.
\<close>

definition processed_event_name :: "macro_step option \<Rightarrow> string option" where
  "processed_event_name step =
     (case step of
        None \<Rightarrow> None
      | Some st \<Rightarrow>
          (case transition st of
             None \<Rightarrow> None
           | Some t \<Rightarrow> (case t_event t of None \<Rightarrow> None | Some e \<Rightarrow> Some (name e))))"

text \<open>\<open>step.event.name\<close> under \<open>except AttributeError\<close>.\<close>

definition consumed_event_name :: "macro_step option \<Rightarrow> string option" where
  "consumed_event_name step =
     (case step of
        None \<Rightarrow> None
      | Some st \<Rightarrow> (case event st of None \<Rightarrow> None | Some e \<Rightarrow> Some (name e)))"

text \<open>\<open>getattr(step, 'entered_states', [])\<close> and \<open>getattr(step, 'exited_states', [])\<close>.\<close>

definition getattr_entered_states :: "macro_step option \<Rightarrow> string list" where
  "getattr_entered_states step = (case step of None \<Rightarrow> [] | Some st \<Rightarrow> entered_states st)"

definition getattr_exited_states :: "macro_step option \<Rightarrow> string list" where
  "getattr_exited_states step = (case step of None \<Rightarrow> [] | Some st \<Rightarrow> exited_states st)"

text \<open>
  \<open>s in xs\<close> for a list \<open>xs\<close> of names and an argument that is a name or \<open>None\<close>.
\<close>

definition py_in :: "string option \<Rightarrow> string list \<Rightarrow> bool" where
  "py_in s xs = (case s of None \<Rightarrow> False | Some n \<Rightarrow> n \<in> set xs)"

text \<open>
  The dictionary \<open>_create_context\<close> returns, in the order of its literal. \<open>active\<close> and
  \<open>context\<close> read the subject; the subject is not advanced between the construction of
  a context and the end of the relay that distributes it, so they are taken from the
  subject's state \<open>sim\<close> at construction.
\<close>

definition create_context ::
  "('s, 'c, 'x) simulator_class \<Rightarrow> 's simulator_obj \<Rightarrow> macro_step option \<Rightarrow> 'c obs_context" where
  "create_context M sim step =
     [(''entered'', Callable (\<lambda>s. py_in s (getattr_entered_states step))),
      (''exited'', Callable (\<lambda>s. py_in s (getattr_exited_states step))),
      (''active'', Callable (\<lambda>s. py_in s (sim_configuration M (engine sim)))),
      (''processed'', Callable (\<lambda>e. processed_event_name step = e)),
      (''consumed'', Callable (\<lambda>e. consumed_event_name step = e)),
      (''context'', Mapping (sim_context M (engine sim)))]"

text \<open>
  What a tester's expression \<open>key(arg)\<close> evaluates to in a context: \<open>None\<close> when the key
  is missing or is not bound to a callable.
\<close>

definition call :: "'c obs_context \<Rightarrow> string \<Rightarrow> string option \<Rightarrow> bool option" where
  "call ctx key arg =
     (case map_of ctx key of
        Some (Callable f) \<Rightarrow> Some (f arg)
      | _ \<Rightarrow> None)"

section \<open>\<open>StateChartTester._execute_tester\<close>\<close>

text \<open>\<open>sim.send(event)\<close> on a simulator object.\<close>

definition send ::
  "('s, 'c, 'x) simulator_class \<Rightarrow> event \<Rightarrow> 's simulator_obj \<Rightarrow> 's simulator_obj" where
  "send M ev sim = sim\<lparr>received := received sim @ [ev], engine := sim_send M ev (engine sim)\<rparr>"

text \<open>
  The inner loop \<open>for key, value in context.items(): tester.evaluator._context[key] = value\<close>.
\<close>

definition update_context ::
  "('s, 'c, 'x) simulator_class \<Rightarrow> 'c obs_context \<Rightarrow> 's simulator_obj \<Rightarrow> 's simulator_obj" where
  "update_context M ctx t =
     t\<lparr>engine := fold (\<lambda>(key, v) s. sim_set_context M key v s) ctx (engine t)\<rparr>"

text \<open>
  \<open>tester.execute()\<close> inside the \<open>try\<close>: the tester after the call, and the \<open>args\<close> of
  the \<open>AssertionError\<close> when it raised one.
\<close>

definition tester_execute ::
  "('s, 'c, 'x) simulator_class \<Rightarrow> 's simulator_obj \<Rightarrow> 's simulator_obj \<times> 'x option" where
  "tester_execute M t = (case sim_execute M (engine t) of (s, r) \<Rightarrow> (t\<lparr>engine := s\<rparr>, r))"

definition dquote :: string where
  "dquote = [CHR 0x22]"

definition newline :: string where
  "newline = [CHR 0x0A]"

text \<open>\<open>'{step}'.format(step=step)\<close>: \<open>None\<close> prints as \<open>None\<close>.\<close>

definition format_step :: "'x formatter \<Rightarrow> macro_step option \<Rightarrow> string" where
  "format_step F step = (case step of None \<Rightarrow> ''None'' | Some st \<Rightarrow> str_step F st)"

text \<open>
  The format string of the \<open>except AssertionError\<close> branch, filled with the subject's
  name, the tester's name, the \<open>args\<close> of the exception, the tester's configuration,
  the subject's configuration and the step.
\<close>

definition assertion_message ::
  "'x formatter \<Rightarrow> string \<Rightarrow> string \<Rightarrow> 'x \<Rightarrow> string list \<Rightarrow> string list \<Rightarrow>
     macro_step option \<Rightarrow> string" where
  "assertion_message F subject_name tester_name a tester_conf subject_conf step =
     ''An AssertionError occurred while testing '' @ dquote @ subject_name @ dquote
       @ ''.'' @ newline
     @ ''Test statechart '' @ dquote @ tester_name @ dquote @ '' returned:'' @ newline
     @ str_args F a @ newline @ newline
     @ ''Tester active configuration: '' @ str_configuration F tester_conf @ newline
     @ ''Active configuration: '' @ str_configuration F subject_conf @ newline
     @ ''Step: '' @ format_step F step"

text \<open>
  The message built in the \<open>except AssertionError\<close> branch, from the subject, the tester
  that raised (as it is after its failed \<open>execute\<close>), the step and the \<open>args\<close> of the
  exception.
\<close>

definition failure_message ::
  "('s, 'c, 'x) simulator_class \<Rightarrow> 'x formatter \<Rightarrow> 's simulator_obj \<Rightarrow> 's simulator_obj \<Rightarrow>
     macro_step option \<Rightarrow> 'x \<Rightarrow> string" where
  "failure_message M F sim t step a =
     assertion_message F (sim_name M (engine sim)) (sim_name M (engine t)) a
       (sim_configuration M (engine t)) (sim_configuration M (engine sim)) step"

text \<open>
  \<open>_execute_tester(step, event, context)\<close>: the testers after the call, and the error when
  the call raised. The testers after the one that raised are returned as they were.
\<close>

fun execute_tester ::
  "('s, 'c, 'x) simulator_class \<Rightarrow> 'x formatter \<Rightarrow> 's simulator_obj \<Rightarrow> macro_step option \<Rightarrow>
     event \<Rightarrow> 'c obs_context \<Rightarrow> 's simulator_obj list \<Rightarrow> 's simulator_obj list \<times> error option" where
  "execute_tester M F sim step ev ctx [] = ([], None)"
| "execute_tester M F sim step ev ctx (tester # rest) =
     (case tester_execute M (update_context M ctx (send M ev tester)) of
        (t, Some a) \<Rightarrow> (t # rest, Some (AssertionError (failure_message M F sim t step a)))
      | (t, None) \<Rightarrow>
          (case execute_tester M F sim step ev ctx rest of (rest', r) \<Rightarrow> (t # rest', r)))"

section \<open>\<open>StateChartTester.__init__\<close>, \<open>stop\<close>, \<open>execute_once\<close>, \<open>execute\<close>\<close>

text \<open>
  \<open>__init__\<close>: the \<open>start\<close> relay, then every scenario event sent to the subject. The
  objects as the constructor leaves them, and the error when the relay raised (then no
  event has been sent to the subject).
\<close>

definition init ::
  "('s, 'c, 'x) simulator_class \<Rightarrow> 'x formatter \<Rightarrow> 's simulator_obj \<Rightarrow> 's simulator_obj list \<Rightarrow>
     event list \<Rightarrow> 's state_chart_tester \<times> error option" where
  "init M F sim ts evs =
     (case execute_tester M F sim None (Event ''start'') (create_context M sim None) ts of
        (ts', Some e) \<Rightarrow> (\<lparr>simulator = sim, testers = ts', events = evs\<rparr>, Some e)
      | (ts', None) \<Rightarrow>
          (\<lparr>simulator = fold (send M) evs sim, testers = ts', events = evs\<rparr>, None))"

text \<open>The message of the \<open>assert not tester.running\<close> in \<open>stop\<close>.\<close>

definition finality_message ::
  "('s, 'c, 'x) simulator_class \<Rightarrow> 'x formatter \<Rightarrow> 's simulator_obj \<Rightarrow> string" where
  "finality_message M F t =
     dquote @ sim_name M (engine t) @ dquote @ '' is not in a final configuration!'' @ newline
     @ ''Configuration: '' @ str_configuration F (sim_configuration M (engine t))"

text \<open>
  The loop \<open>for tester in self._testers\<close> of \<open>stop\<close>, over the positions still to visit:
  each iteration calls \<open>_execute_tester\<close> (on the whole list), then asserts that the
  tester at this position is not running.
\<close>

fun stop_loop ::
  "('s, 'c, 'x) simulator_class \<Rightarrow> 'x formatter \<Rightarrow> 's simulator_obj \<Rightarrow> 'c obs_context \<Rightarrow>
     nat list \<Rightarrow> 's simulator_obj list \<Rightarrow> 's simulator_obj list \<times> error option" where
  "stop_loop M F sim ctx [] ts = (ts, None)"
| "stop_loop M F sim ctx (i # is) ts =
     (case execute_tester M F sim None (Event ''stop'') ctx ts of
        (ts', Some e) \<Rightarrow> (ts', Some e)
      | (ts', None) \<Rightarrow>
          (if sim_running M (engine (ts' ! i))
           then (ts', Some (AssertionError (finality_message M F (ts' ! i))))
           else stop_loop M F sim ctx is ts'))"

definition stop ::
  "('s, 'c, 'x) simulator_class \<Rightarrow> 'x formatter \<Rightarrow> 's state_chart_tester \<Rightarrow>
     's state_chart_tester \<times> error option" where
  "stop M F h =
     (case stop_loop M F (simulator h) (create_context M (simulator h) None)
             [0 ..< length (testers h)] (testers h) of
        (ts', r) \<Rightarrow> (h\<lparr>testers := ts'\<rparr>, r))"

text \<open>
  \<open>execute_once\<close>: the harness after the call, and either the error raised or the value
  returned (the subject's step, or \<open>None\<close>).
\<close>

definition execute_once ::
  "('s, 'c, 'x) simulator_class \<Rightarrow> 'x formatter \<Rightarrow> 's state_chart_tester \<Rightarrow>
     's state_chart_tester \<times> (error + macro_step option)" where
  "execute_once M F h =
     (case sim_execute_once M (engine (simulator h)) of
        (s, step) \<Rightarrow>
          (let h1 = h\<lparr>simulator := (simulator h)\<lparr>engine := s\<rparr>\<rparr> in
           case step of
             Some st \<Rightarrow>
               (case execute_tester M F (simulator h1) step (Event ''step'')
                       (create_context M (simulator h1) step) (testers h1) of
                  (ts', Some e) \<Rightarrow> (h1\<lparr>testers := ts'\<rparr>, Inl e)
                | (ts', None) \<Rightarrow> (h1\<lparr>testers := ts'\<rparr>, Inr step))
           | None \<Rightarrow>
               (case stop M F h1 of
                  (h2, Some e) \<Rightarrow> (h2, Inl e)
                | (h2, None) \<Rightarrow> (h2, Inr step))))"

text \<open>
  The \<open>while step:\<close> loop of \<open>execute\<close>, entered with the harness \<open>h\<close>, the list \<open>steps\<close>,
  the counter \<open>i\<close> and the last value of \<open>step\<close>. The subject may produce steps for
  ever, so the loop is a partial function: \<open>None\<close> when it does not return.
\<close>

partial_function (option) execute_loop ::
  "('s, 'c, 'x) simulator_class \<Rightarrow> 'x formatter \<Rightarrow> int \<Rightarrow> 's state_chart_tester \<Rightarrow>
     macro_step list \<Rightarrow> int \<Rightarrow> macro_step option \<Rightarrow>
     ('s state_chart_tester \<times> (error + macro_step list)) option" where
  "execute_loop M F max_steps h steps i step =
     (case step of
        None \<Rightarrow> Some (h, Inr steps)
      | Some st \<Rightarrow>
          (if max_steps > 0 \<and> i + 1 = max_steps then Some (h, Inr (steps @ [st]))
           else
             (case execute_once M F h of
                (h', Inl e) \<Rightarrow> Some (h', Inl e)
              | (h', Inr step') \<Rightarrow> execute_loop M F max_steps h' (steps @ [st]) (i + 1) step')))"

declare execute_loop.simps [code]

text \<open>\<open>execute(max_steps)\<close>; the default of \<open>max_steps\<close> is \<open>-1\<close>.\<close>

definition execute ::
  "('s, 'c, 'x) simulator_class \<Rightarrow> 'x formatter \<Rightarrow> int \<Rightarrow> 's state_chart_tester \<Rightarrow>
     ('s state_chart_tester \<times> (error + macro_step list)) option" where
  "execute M F max_steps h =
     (case execute_once M F h of
        (h', Inl e) \<Rightarrow> Some (h', Inl e)
      | (h', Inr step) \<Rightarrow> execute_loop M F max_steps h' [] 0 step)"

section \<open>Notions used to state the properties\<close>

text \<open>
  What one iteration of the loop of \<open>_execute_tester\<close> does to its tester: the event is
  sent, the context is written over the tester's, and the tester is executed.
\<close>

definition relay_one ::
  "('s, 'c, 'x) simulator_class \<Rightarrow> event \<Rightarrow> 'c obs_context \<Rightarrow> 's simulator_obj \<Rightarrow>
     's simulator_obj \<times> 'x option" where
  "relay_one M ev ctx t = tester_execute M (update_context M ctx (send M ev t))"

text \<open>
  The subject whose engine state is \<open>s\<close> has exactly \<open>n\<close> pending steps: \<open>n\<close> calls of
  its \<open>execute_once\<close> return a step and the next one returns \<open>None\<close>.
\<close>

fun pending :: "('s, 'c, 'x) simulator_class \<Rightarrow> nat \<Rightarrow> 's \<Rightarrow> bool" where
  "pending M 0 s = (case sim_execute_once M s of (s', None) \<Rightarrow> True | (s', Some st) \<Rightarrow> False)"
| "pending M (Suc n) s =
     (case sim_execute_once M s of (s', None) \<Rightarrow> False | (s', Some st) \<Rightarrow> pending M n s')"

text \<open>
  \<open>execute\<close> as the specification words it: call \<open>executeOnce\<close> repeatedly, at most \<open>n\<close>
  times, collect every step returned, and stop at the first call that returns no step
  (a call that raises ends the run with its error).
\<close>

fun collect_steps ::
  "('s, 'c, 'x) simulator_class \<Rightarrow> 'x formatter \<Rightarrow> nat \<Rightarrow> 's state_chart_tester \<Rightarrow>
     's state_chart_tester \<times> (error + macro_step list)" where
  "collect_steps M F 0 h = (h, Inr [])"
| "collect_steps M F (Suc n) h =
     (case execute_once M F h of
        (h', Inl e) \<Rightarrow> (h', Inl e)
      | (h', Inr None) \<Rightarrow> (h', Inr [])
      | (h', Inr (Some st)) \<Rightarrow>
          (case collect_steps M F n h' of
             (h'', Inl e) \<Rightarrow> (h'', Inl e)
           | (h'', Inr steps) \<Rightarrow> (h'', Inr (st # steps))))"

text \<open>How many times the event \<open>ev\<close> has been delivered to each tester, in list order.\<close>

definition deliveries :: "event \<Rightarrow> 's state_chart_tester \<Rightarrow> nat list" where
  "deliveries ev h = map (\<lambda>t. count_list (received t) ev) (testers h)"

section \<open>A scripted simulator class, for concrete runs\<close>

text \<open>
  A small class that acts as a \<open>Simulator\<close>: \<open>send\<close> queues the event; \<open>execute_once\<close>
  pops the next step of a fixed script; \<open>execute\<close> empties the queue, raises an
  \<open>AssertionError\<close> when a queued event is named in \<open>sc_fail_on\<close>, and leaves the
  running state when one is named in \<open>sc_final_on\<close>; the context assignment records
  the key.
\<close>

record scripted =
  sc_name :: string
  sc_queue :: "event list"
  sc_steps :: "macro_step list"
  sc_active :: "string list"
  sc_running :: bool
  sc_fail_on :: "string list"
  sc_final_on :: "string list"
  sc_keys :: "string list"

definition scripted_execute_once :: "scripted \<Rightarrow> scripted \<times> macro_step option" where
  "scripted_execute_once s =
     (case sc_steps s of [] \<Rightarrow> (s, None) | st # sts \<Rightarrow> (s\<lparr>sc_steps := sts\<rparr>, Some st))"

definition scripted_execute :: "scripted \<Rightarrow> scripted \<times> string option" where
  "scripted_execute s =
     (let names = map name (sc_queue s);
          s' = s\<lparr>sc_queue := [],
                 sc_running := (sc_running s \<and> \<not> list_ex (\<lambda>n. n \<in> set (sc_final_on s)) names)\<rparr>
      in (s', if list_ex (\<lambda>n. n \<in> set (sc_fail_on s)) names then Some ''expected failure''
              else None))"

definition Scripted :: "(scripted, nat, string) simulator_class" where
  "Scripted =
     \<lparr>sim_send = (\<lambda>ev s. s\<lparr>sc_queue := sc_queue s @ [ev]\<rparr>),
      sim_execute_once = scripted_execute_once,
      sim_execute = scripted_execute,
      sim_configuration = sc_active,
      sim_running = sc_running,
      sim_name = sc_name,
      sim_context = (\<lambda>s. length (sc_steps s)),
      sim_set_context = (\<lambda>key v s. s\<lparr>sc_keys := sc_keys s @ [key]\<rparr>)\<rparr>"

definition plain :: "string formatter" where
  "plain = \<lparr>str_args = (\<lambda>a. a), str_configuration = concat, str_step = (\<lambda>st. ''MacroStep'')\<rparr>"

text \<open>A scripted object with the given name, script and reactions, and nothing received.\<close>

definition scripted_obj ::
  "string \<Rightarrow> macro_step list \<Rightarrow> string list \<Rightarrow> string list \<Rightarrow> scripted simulator_obj" where
  "scripted_obj n sts fail final =
     \<lparr>received = [],
      engine = \<lparr>sc_name = n, sc_queue = [], sc_steps = sts, sc_active = [n], sc_running = True,
                sc_fail_on = fail, sc_final_on = final, sc_keys = []\<rparr>\<rparr>"

text \<open>A step that enters the state \<open>s\<close> and nothing else.\<close>

definition enter :: "string \<Rightarrow> macro_step" where
  "enter s = \<lparr>event = None, transition = None, entered_states = [s], exited_states = []\<rparr>"

text \<open>Concrete objects for the runs below.\<close>

definition subject0 :: "scripted simulator_obj" where
  "subject0 = scripted_obj ''subject'' [] [] []"

definition step_AB_C :: macro_step where
  "step_AB_C =
     \<lparr>event = None, transition = None, entered_states = [''A'', ''B''],
      exited_states = [''C'']\<rparr>"

definition eventless :: macro_step where
  "eventless =
     \<lparr>event = None, transition = Some (Transition None), entered_states = [''s3''],
      exited_states = [''s2'']\<rparr>"

definition three :: "scripted simulator_obj list" where
  "three =
     [scripted_obj ''t1'' [] [] [''stop''], scripted_obj ''t2'' [] [''step''] [''stop''],
      scripted_obj ''t3'' [] [] [''stop'']]"

definition context_keys :: "string list" where
  "context_keys = [''entered'', ''exited'', ''active'', ''processed'', ''consumed'', ''context'']"

definition t2_failed :: "scripted simulator_obj" where
  "t2_failed =
     \<lparr>received = [Event ''step''],
      engine = \<lparr>sc_name = ''t2'', sc_queue = [], sc_steps = [], sc_active = [''t2''],
                sc_running = True, sc_fail_on = [''step''], sc_final_on = [''stop''],
                sc_keys = context_keys\<rparr>\<rparr>"

definition two_testers :: "scripted state_chart_tester" where
  "two_testers =
     \<lparr>simulator = subject0,
      testers = [scripted_obj ''t1'' [] [] [''stop''], scripted_obj ''t2'' [] [] [''stop'']],
      events = []\<rparr>"

definition five_steps :: "scripted state_chart_tester" where
  "five_steps =
     fst (init Scripted plain
            (scripted_obj ''subject''
               [enter ''s1'', enter ''s2'', enter ''s3'', enter ''s4'', enter ''s5''] [] [])
            [scripted_obj ''t1'' [] [] [''stop'']] [])"

definition two_steps :: "scripted state_chart_tester" where
  "two_steps =
     fst (init Scripted plain (scripted_obj ''subject'' [enter ''s1'', enter ''s2''] [] [])
            [scripted_obj ''t1'' [] [] [''stop'']] [])"

section \<open>\<open>TesterConfiguration\<close>, at the level of object references\<close>

text \<open>
  \<open>build_tester\<close> creates simulator objects and hands references to them, and to the
  configuration's statecharts and evaluators, to the harness. Whether two harnesses
  share state is a question about which references are equal, so this part of the
  model denotes simulators and evaluators by references into a heap.

  A heap: \<open>next_ref\<close> is the first reference that denotes no simulator or evaluator
  object yet, \<open>objects\<close> is the state of the objects that exist.
\<close>

type_synonym ref = nat

record 'o heap =
  next_ref :: ref
  objects :: 'o


text \<open>
  A \<open>simulator_class\<close>: a callable that takes a statechart and an evaluator (a reference,
  or \<open>None\<close>) and returns a simulator, that is a reference and the heap after the call.
\<close>

type_synonym ('sc, 'o) factory = "'sc \<Rightarrow> ref option \<Rightarrow> 'o heap \<Rightarrow> ref \<times> 'o heap"

record ('sc, 'o) tester_configuration =
  statechart :: 'sc
  evaluator :: "ref option"
  simulator_class :: "('sc, 'o) factory option"
  statechart_tests :: "('sc \<times> ref option \<times> ('sc, 'o) factory option) list"


































section \<open>Observation contexts\<close>

lemma call_entered:
  "call (create_context M sim step) ''entered'' arg = Some (py_in arg (getattr_entered_states step))"
  by (simp add: call_def create_context_def)

lemma call_exited:
  "call (create_context M sim step) ''exited'' arg = Some (py_in arg (getattr_exited_states step))"
  by (simp add: call_def create_context_def)

lemma call_active:
  "call (create_context M sim step) ''active'' arg
     = Some (py_in arg (sim_configuration M (engine sim)))"
  by (simp add: call_def create_context_def)

lemma call_processed:
  "call (create_context M sim step) ''processed'' arg = Some (processed_event_name step = arg)"
  by (simp add: call_def create_context_def)

lemma call_consumed:
  "call (create_context M sim step) ''consumed'' arg = Some (consumed_event_name step = arg)"
  by (simp add: call_def create_context_def)

lemma map_of_context:
  "map_of (create_context M sim step) ''context'' = Some (Mapping (sim_context M (engine sim)))"
  by (simp add: create_context_def)

lemma py_in_Some: "py_in (Some n) xs = (n \<in> set xs)"
  by (simp add: py_in_def)

text \<open>
  Claim C5. The context built for a step \<open>st\<close> answers \<open>entered(s)\<close> true exactly for the
  names in \<open>st.entered_states\<close> and \<open>exited(s)\<close> true exactly for the names in
  \<open>st.exited_states\<close>. The answers depend on no other step: the context is built from
  \<open>st\<close> alone, whatever step a context was built for before.
\<close>

theorem step_context_entered_exited:
  "call (create_context M sim (Some st)) ''entered'' (Some s) = Some (s \<in> set (entered_states st))
   \<and> call (create_context M sim (Some st)) ''exited'' (Some s) = Some (s \<in> set (exited_states st))"
  by (simp add: call_entered call_exited py_in_Some getattr_entered_states_def
      getattr_exited_states_def)

text \<open>
  The example of the claim: a step that entered \<open>A\<close> and \<open>B\<close> and exited \<open>C\<close>, and the
  context of a later step that entered only \<open>D\<close>.
\<close>

theorem step_context_entered_exited_witness:
  "call (create_context Scripted subject0 (Some step_AB_C)) ''entered'' (Some ''A'') = Some True
   \<and> call (create_context Scripted subject0 (Some step_AB_C)) ''entered'' (Some ''B'') = Some True
   \<and> call (create_context Scripted subject0 (Some step_AB_C)) ''entered'' (Some ''C'') = Some False
   \<and> call (create_context Scripted subject0 (Some step_AB_C)) ''exited'' (Some ''C'') = Some True
   \<and> call (create_context Scripted subject0 (Some step_AB_C)) ''exited'' (Some ''A'') = Some False
   \<and> call (create_context Scripted subject0 (Some (enter ''D''))) ''entered'' (Some ''A'')
       = Some False
   \<and> call (create_context Scripted subject0 (Some (enter ''D''))) ''exited'' (Some ''C'')
       = Some False"
  using step_context_entered_exited [of Scripted subject0 step_AB_C "''A''"]
    step_context_entered_exited [of Scripted subject0 step_AB_C "''B''"]
    step_context_entered_exited [of Scripted subject0 step_AB_C "''C''"]
    step_context_entered_exited [of Scripted subject0 "enter ''D''" "''A''"]
    step_context_entered_exited [of Scripted subject0 "enter ''D''" "''C''"]
  by (simp add: step_AB_C_def enter_def)

text \<open>
  Claim C6. A context built with no step (as \<open>__init__\<close> and \<open>stop\<close> build it) answers
  \<open>entered\<close>, \<open>exited\<close>, \<open>processed\<close> and \<open>consumed\<close> false for every name \<open>n\<close>, while
  \<open>active(n)\<close> tells whether \<open>n\<close> is in the subject's configuration and \<open>context\<close> is the
  subject's evaluation context.
\<close>

theorem no_step_context:
  "call (create_context M sim None) ''entered'' (Some n) = Some False
   \<and> call (create_context M sim None) ''exited'' (Some n) = Some False
   \<and> call (create_context M sim None) ''processed'' (Some n) = Some False
   \<and> call (create_context M sim None) ''consumed'' (Some n) = Some False
   \<and> call (create_context M sim None) ''active'' (Some n)
       = Some (n \<in> set (sim_configuration M (engine sim)))
   \<and> map_of (create_context M sim None) ''context'' = Some (Mapping (sim_context M (engine sim)))"
  by (simp add: call_entered call_exited call_processed call_consumed call_active map_of_context
      py_in_Some getattr_entered_states_def getattr_exited_states_def processed_event_name_def
      consumed_event_name_def)

text \<open>
  Claim C9. Called with \<open>None\<close>, \<open>consumed\<close> returns true in a context built with no
  step and in the context of a step whose consumed event is absent; \<open>processed\<close>
  returns true on \<open>None\<close> in a context built with no step, and in the context of a step
  that has no transition or whose transition has no event. Both compare their argument
  with a stored name that is \<open>None\<close> in these cases.
\<close>

theorem none_argument:
  "call (create_context M sim None) ''consumed'' None = Some True
   \<and> call (create_context M sim None) ''processed'' None = Some True
   \<and> (event st = None \<longrightarrow> call (create_context M sim (Some st)) ''consumed'' None = Some True)
   \<and> (transition st = None \<longrightarrow>
        call (create_context M sim (Some st)) ''processed'' None = Some True)
   \<and> (transition st = Some t \<longrightarrow> t_event t = None \<longrightarrow>
        call (create_context M sim (Some st)) ''processed'' None = Some True)"
  by (simp add: call_processed call_consumed processed_event_name_def consumed_event_name_def)

theorem none_argument_witness:
  "call (create_context Scripted subject0 None) ''consumed'' None = Some True
   \<and> call (create_context Scripted subject0 None) ''processed'' None = Some True
   \<and> call (create_context Scripted subject0 (Some eventless)) ''consumed'' None = Some True
   \<and> call (create_context Scripted subject0 (Some eventless)) ''processed'' None = Some True
   \<and> call (create_context Scripted subject0 (Some (enter ''s1''))) ''processed'' None = Some True"
  using none_argument [of Scripted subject0 eventless "Transition None"]
    none_argument [of Scripted subject0 "enter ''s1''"]
  by (simp add: eventless_def enter_def)

section \<open>Relaying an event to the testers\<close>

lemma execute_tester_Cons:
  "execute_tester M F sim step ev ctx (t # ts) =
     (case relay_one M ev ctx t of
        (t', Some a) \<Rightarrow> (t' # ts, Some (AssertionError (failure_message M F sim t' step a)))
      | (t', None) \<Rightarrow>
          (case execute_tester M F sim step ev ctx ts of (ts', r) \<Rightarrow> (t' # ts', r)))"
  by (simp add: relay_one_def)

lemma execute_tester_length:
  "length (fst (execute_tester M F sim step ev ctx ts)) = length ts"
  by (induction ts)
    (auto simp: execute_tester_Cons simp del: execute_tester.simps(2)
      split: prod.splits option.splits)

lemma execute_tester_pass:
  "list_all (\<lambda>t. snd (relay_one M ev ctx t) = None) ts \<Longrightarrow>
   execute_tester M F sim step ev ctx ts = (map (\<lambda>t. fst (relay_one M ev ctx t)) ts, None)"
  by (induction ts)
    (auto simp: execute_tester_Cons simp del: execute_tester.simps(2)
      split: prod.splits option.splits)

lemma execute_tester_fail:
  "k < length ts \<Longrightarrow>
   list_all (\<lambda>t. snd (relay_one M ev ctx t) = None) (take k ts) \<Longrightarrow>
   relay_one M ev ctx (ts ! k) = (t', Some a) \<Longrightarrow>
   execute_tester M F sim step ev ctx ts =
     (map (\<lambda>t. fst (relay_one M ev ctx t)) (take k ts) @ t' # drop (Suc k) ts,
      Some (AssertionError (failure_message M F sim t' step a)))"
proof (induction ts arbitrary: k)
  case Nil
  then show ?case by simp
next
  case (Cons t ts)
  show ?case
  proof (cases k)
    case 0
    with Cons.prems show ?thesis
      by (simp add: execute_tester_Cons del: execute_tester.simps(2))
  next
    case (Suc j)
    with Cons.prems have "j < length ts"
      and "list_all (\<lambda>t. snd (relay_one M ev ctx t) = None) (take j ts)"
      and "relay_one M ev ctx (ts ! j) = (t', Some a)"
      and "snd (relay_one M ev ctx t) = None"
      by simp_all
    then obtain t1 where "relay_one M ev ctx t = (t1, None)"
      by (cases "relay_one M ev ctx t") simp
    with Cons.IH [of j] Suc \<open>j < length ts\<close>
      \<open>list_all (\<lambda>t. snd (relay_one M ev ctx t) = None) (take j ts)\<close>
      \<open>relay_one M ev ctx (ts ! j) = (t', Some a)\<close>
    show ?thesis
      by (simp add: execute_tester_Cons del: execute_tester.simps(2))
  qed
qed

lemma received_relay_one: "received (fst (relay_one M ev ctx t)) = received t @ [ev]"
  by (simp add: relay_one_def tester_execute_def update_context_def send_def split: prod.splits)

lemma pieces:
  assumes "m = p1 @ x1 @ p2 @ x2 @ p3 @ x3 @ p4 @ x4 @ p5 @ x5 @ p6 @ x6"
  shows "sublist x1 m" and "sublist x2 m" and "sublist x3 m" and "sublist x4 m"
    and "sublist x5 m" and "suffix (p6 @ x6) m"
proof -
  show "sublist x1 m" unfolding assms by (rule sublist_appendI)
  have "m = (p1 @ x1 @ p2) @ x2 @ (p3 @ x3 @ p4 @ x4 @ p5 @ x5 @ p6 @ x6)"
    unfolding assms by simp
  then show "sublist x2 m" by (metis sublist_appendI)
  have "m = (p1 @ x1 @ p2 @ x2 @ p3) @ x3 @ (p4 @ x4 @ p5 @ x5 @ p6 @ x6)"
    unfolding assms by simp
  then show "sublist x3 m" by (metis sublist_appendI)
  have "m = (p1 @ x1 @ p2 @ x2 @ p3 @ x3 @ p4) @ x4 @ (p5 @ x5 @ p6 @ x6)"
    unfolding assms by simp
  then show "sublist x4 m" by (metis sublist_appendI)
  have "m = (p1 @ x1 @ p2 @ x2 @ p3 @ x3 @ p4 @ x4 @ p5) @ x5 @ (p6 @ x6)"
    unfolding assms by simp
  then show "sublist x5 m" by (metis sublist_appendI)
  have "m = (p1 @ x1 @ p2 @ x2 @ p3 @ x3 @ p4 @ x4 @ p5 @ x5) @ (p6 @ x6)"
    unfolding assms by simp
  then show "suffix (p6 @ x6) m" by (rule suffixI)
qed

lemma failure_message_shape:
  "failure_message M F sim t step a =
     (''An AssertionError occurred while testing '' @ dquote) @ sim_name M (engine sim)
     @ (dquote @ ''.'' @ newline @ ''Test statechart '' @ dquote) @ sim_name M (engine t)
     @ (dquote @ '' returned:'' @ newline) @ str_args F a
     @ (newline @ newline @ ''Tester active configuration: '')
     @ str_configuration F (sim_configuration M (engine t))
     @ (newline @ ''Active configuration: '')
     @ str_configuration F (sim_configuration M (engine sim))
     @ (newline @ ''Step: '') @ format_step F step"
  unfolding failure_message_def assertion_message_def by (simp only: append_assoc)

text \<open>
  Claim C3. When, in a relay, the testers before position \<open>k\<close> execute normally and the
  execution of tester \<open>k\<close> raises an \<open>AssertionError\<close> with \<open>args\<close> \<open>a\<close>, the relay raises
  an \<open>AssertionError\<close> (it is not swallowed) whose message contains the subject's
  statechart name, the failing tester's statechart name, the original \<open>args\<close>, the
  failing tester's configuration and the subject's configuration, as they are after the
  failed execution, and ends with the step, printed as \<open>None\<close> when the relay has no
  step.
\<close>

theorem failure_is_enriched:
  assumes "k < length ts"
    and "list_all (\<lambda>t. snd (relay_one M ev ctx t) = None) (take k ts)"
    and "relay_one M ev ctx (ts ! k) = (t', Some a)"
  shows "\<exists>msg. snd (execute_tester M F sim step ev ctx ts) = Some (AssertionError msg)
     \<and> msg = failure_message M F sim t' step a
     \<and> sublist (sim_name M (engine sim)) msg
     \<and> sublist (sim_name M (engine t')) msg
     \<and> sublist (str_args F a) msg
     \<and> sublist (str_configuration F (sim_configuration M (engine t'))) msg
     \<and> sublist (str_configuration F (sim_configuration M (engine sim))) msg
     \<and> suffix (''Step: '' @ (case step of None \<Rightarrow> ''None'' | Some st \<Rightarrow> str_step F st)) msg"
proof -
  let ?msg = "failure_message M F sim t' step a"
  have res: "snd (execute_tester M F sim step ev ctx ts) = Some (AssertionError ?msg)"
    using execute_tester_fail [OF assms] by simp
  note p = pieces [OF failure_message_shape [of M F sim t' step a]]
  have "suffix ((newline @ ''Step: '') @ format_step F step) ?msg"
    by (rule p(6))
  then have "suffix (''Step: '' @ format_step F step) ?msg"
    unfolding append_assoc by (rule suffix_appendD)
  then have 6: "suffix (''Step: '' @ (case step of None \<Rightarrow> ''None'' | Some st \<Rightarrow> str_step F st))
      ?msg"
    unfolding format_step_def .
  from res p(1) p(2) p(3) p(4) p(5) 6 show ?thesis by blast
qed

lemma three_length: "Suc 0 < length three"
  by (simp add: three_def)

lemma three_first_passes:
  "list_all (\<lambda>t. snd (relay_one Scripted ev (create_context Scripted subject0 step) t) = None)
     (take (Suc 0) three)"
  by (simp add: three_def relay_one_def tester_execute_def update_context_def send_def
      create_context_def Scripted_def scripted_execute_def scripted_obj_def)

lemma three_second_fails:
  "relay_one Scripted (Event ''step'') (create_context Scripted subject0 step) (three ! Suc 0)
     = (t2_failed, Some ''expected failure'')"
  by (simp add: three_def relay_one_def tester_execute_def update_context_def send_def
      create_context_def Scripted_def scripted_execute_def scripted_obj_def t2_failed_def
      context_keys_def)

text \<open>
  A relay of \<open>step\<close> to three testers of which the second raises: the message names the
  subject, the tester \<open>t2\<close> and the original payload, and ends with the step.
\<close>

theorem failure_is_enriched_witness:
  "\<exists>msg. snd (execute_tester Scripted plain subject0 (Some (enter ''a'')) (Event ''step'')
            (create_context Scripted subject0 (Some (enter ''a''))) three)
          = Some (AssertionError msg)
     \<and> sublist ''subject'' msg \<and> sublist ''t2'' msg \<and> sublist ''expected failure'' msg
     \<and> suffix ''Step: MacroStep'' msg"
proof -
  have n1: "sim_name Scripted (engine subject0) = ''subject''"
    by (simp add: Scripted_def subject0_def scripted_obj_def)
  have n2: "sim_name Scripted (engine t2_failed) = ''t2''"
    by (simp add: Scripted_def t2_failed_def)
  have n3: "str_args plain ''expected failure'' = ''expected failure''"
    by (simp add: plain_def)
  have n4: "''Step: '' @ (case Some (enter ''a'') of None \<Rightarrow> ''None''
      | Some st \<Rightarrow> str_step plain st) = ''Step: MacroStep''"
    by (simp add: plain_def)
  from failure_is_enriched [OF three_length three_first_passes three_second_fails,
      of plain subject0 "Some (enter ''a'')" "Some (enter ''a'')"]
  show ?thesis
    unfolding n1 n2 n3 n4 by blast
qed

text \<open>
  Claim C4. When, in a relay, the testers before position \<open>k\<close> execute normally and the
  execution of tester \<open>k\<close> raises, every tester after position \<open>k\<close> is left exactly as
  it was: it has not been sent the event, its context has not been written, and it has
  not been executed. The testers up to \<open>k\<close> have been relayed to, in list order.
\<close>

theorem fail_fast:
  assumes "k < length ts"
    and "list_all (\<lambda>t. snd (relay_one M ev ctx t) = None) (take k ts)"
    and "relay_one M ev ctx (ts ! k) = (t', Some a)"
  shows "length (fst (execute_tester M F sim step ev ctx ts)) = length ts
     \<and> drop (Suc k) (fst (execute_tester M F sim step ev ctx ts)) = drop (Suc k) ts
     \<and> fst (execute_tester M F sim step ev ctx ts) ! k = t'
     \<and> take k (fst (execute_tester M F sim step ev ctx ts))
         = map (\<lambda>t. fst (relay_one M ev ctx t)) (take k ts)"
proof -
  have "fst (execute_tester M F sim step ev ctx ts)
      = map (\<lambda>t. fst (relay_one M ev ctx t)) (take k ts) @ t' # drop (Suc k) ts"
    using execute_tester_fail [OF assms] by simp
  moreover have "length (map (\<lambda>t. fst (relay_one M ev ctx t)) (take k ts)) = k"
    using assms(1) by simp
  ultimately show ?thesis
    using assms(1) by (simp add: nth_append)
qed

text \<open>
  The same relay: the third tester is as it was built, with nothing received, and the
  second is the one that failed.
\<close>

theorem fail_fast_witness:
  "drop 2 (fst (execute_tester Scripted plain subject0 (Some (enter ''a'')) (Event ''step'')
      (create_context Scripted subject0 (Some (enter ''a''))) three))
     = [scripted_obj ''t3'' [] [] [''stop'']]
   \<and> fst (execute_tester Scripted plain subject0 (Some (enter ''a'')) (Event ''step'')
      (create_context Scripted subject0 (Some (enter ''a''))) three) ! 1 = t2_failed"
  using fail_fast [OF three_length three_first_passes three_second_fails,
      of plain subject0 "Some (enter ''a'')" "Some (enter ''a'')"]
  by (simp add: three_def numeral_2_eq_2)

section \<open>\<open>stop\<close>\<close>

text \<open>
  Claim C1. A call of \<open>stop()\<close> on a harness with \<open>N\<close> testers is claimed to deliver
  \<open>stop\<close> exactly once to each tester. The loop of \<open>stop\<close> calls \<open>_execute_tester\<close>
  once per tester, and each of these calls relays to all the testers. On the harness
  \<open>two_testers\<close>, whose two testers become final on \<open>stop\<close> and never raise, the call
  returns normally and each tester has been delivered \<open>stop\<close> twice.
\<close>

theorem stop_relays_in_every_round:
  "snd (stop Scripted plain two_testers) = None
   \<and> deliveries (Event ''stop'') (fst (stop Scripted plain two_testers)) = [2, 2]
   \<and> map received (testers (fst (stop Scripted plain two_testers)))
       = [[Event ''stop'', Event ''stop''], [Event ''stop'', Event ''stop'']]"
  by code_simp

section \<open>\<open>execute_once\<close> and \<open>execute\<close>\<close>

lemma simulator_stop: "stop M F h = (h', r) \<Longrightarrow> simulator h' = simulator h"
  by (auto simp: stop_def split: prod.splits)

lemma execute_once_Some:
  assumes "sim_execute_once M (engine (simulator h)) = (s, Some st)"
  shows "execute_once M F h =
     (case execute_tester M F ((simulator h)\<lparr>engine := s\<rparr>) (Some st) (Event ''step'')
             (create_context M ((simulator h)\<lparr>engine := s\<rparr>) (Some st)) (testers h) of
        (ts', r) \<Rightarrow>
          (h\<lparr>simulator := (simulator h)\<lparr>engine := s\<rparr>, testers := ts'\<rparr>,
           case r of Some e \<Rightarrow> Inl e | None \<Rightarrow> Inr (Some st)))"
  using assms by (simp add: execute_once_def split: prod.splits option.splits)

lemma execute_once_None:
  assumes "sim_execute_once M (engine (simulator h)) = (s, None)"
  shows "execute_once M F h =
     (case stop M F (h\<lparr>simulator := (simulator h)\<lparr>engine := s\<rparr>\<rparr>) of
        (h2, r) \<Rightarrow> (h2, case r of Some e \<Rightarrow> Inl e | None \<Rightarrow> Inr None))"
  using assms by (simp add: execute_once_def split: prod.splits option.splits)

lemma execute_once_subject:
  "engine (simulator (fst (execute_once M F h))) = fst (sim_execute_once M (engine (simulator h)))"
proof (cases "sim_execute_once M (engine (simulator h))")
  case (Pair s step)
  show ?thesis
  proof (cases step)
    case None
    with Pair show ?thesis
      by (auto simp: execute_once_None dest: simulator_stop split: prod.splits)
  next
    case (Some st)
    with Pair show ?thesis
      by (auto simp: execute_once_Some split: prod.splits)
  qed
qed

lemma execute_once_value:
  "snd (execute_once M F h) = Inr step \<Longrightarrow> step = snd (sim_execute_once M (engine (simulator h)))"
  by (auto simp: execute_once_def Let_def split: prod.splits option.splits)

lemma execute_loop_None [simp]: "execute_loop M F m h steps i None = Some (h, Inr steps)"
  by (subst execute_loop.simps) simp

lemma execute_loop_Some:
  "execute_loop M F m h steps i (Some st) =
     (if 0 < m \<and> i + 1 = m then Some (h, Inr (steps @ [st]))
      else case execute_once M F h of
             (h', Inl e) \<Rightarrow> Some (h', Inl e)
           | (h', Inr step') \<Rightarrow> execute_loop M F m h' (steps @ [st]) (i + 1) step')"
  by (subst execute_loop.simps) simp

lemma loop_bounded:
  "0 < m \<Longrightarrow> 0 \<le> i \<Longrightarrow> nat (m - i) = Suc k \<Longrightarrow>
   execute_loop M F m h steps i (Some st) =
     Some (case collect_steps M F k h of
             (h', Inl e) \<Rightarrow> (h', Inl e)
           | (h', Inr ss) \<Rightarrow> (h', Inr (steps @ st # ss)))"
proof (induction k arbitrary: h steps i st)
  case 0
  then have "i + 1 = m" by linarith
  with 0 show ?case
    by (simp add: execute_loop_Some)
next
  case (Suc k)
  then have ne: "i + 1 \<noteq> m" and nxt: "nat (m - (i + 1)) = Suc k" and pos: "0 \<le> i + 1"
    by linarith+
  obtain h' r where eo: "execute_once M F h = (h', r)"
    by (cases "execute_once M F h")
  show ?case
  proof (cases r)
    case (Inl e)
    with eo ne show ?thesis
      by (simp add: execute_loop_Some)
  next
    case (Inr step')
    show ?thesis
    proof (cases step')
      case None
      with eo ne Inr show ?thesis
        by (simp add: execute_loop_Some)
    next
      case (Some st')
      have "execute_loop M F m h steps i (Some st)
          = execute_loop M F m h' (steps @ [st]) (i + 1) (Some st')"
        using eo ne Inr Some by (simp add: execute_loop_Some)
      also have "\<dots> = Some (case collect_steps M F k h' of
             (h'', Inl e) \<Rightarrow> (h'', Inl e)
           | (h'', Inr ss) \<Rightarrow> (h'', Inr ((steps @ [st]) @ st' # ss)))"
        by (rule Suc.IH [OF Suc.prems(1) pos nxt])
      finally show ?thesis
        using eo Inr Some by (simp split: prod.splits sum.splits)
    qed
  qed
qed

lemma execute_bounded:
  assumes "0 < m"
  shows "execute M F m h = Some (collect_steps M F (nat m) h)"
proof -
  from assms obtain k where k: "nat m = Suc k"
    by (cases "nat m") auto
  then have k': "nat (m - 0) = Suc k" by simp
  obtain h' r where eo: "execute_once M F h = (h', r)"
    by (cases "execute_once M F h")
  show ?thesis
  proof (cases r)
    case (Inl e)
    with eo k show ?thesis by (simp add: execute_def)
  next
    case (Inr step')
    show ?thesis
    proof (cases step')
      case None
      with eo k Inr show ?thesis
        by (simp add: execute_def)
    next
      case (Some st')
      with eo k Inr loop_bounded [OF assms _ k', of M F h' "[]" st'] show ?thesis
        by (simp add: execute_def split: prod.splits sum.splits)
    qed
  qed
qed

lemma pending_SucD:
  "pending M (Suc n) s \<Longrightarrow> \<exists>s' st. sim_execute_once M s = (s', Some st) \<and> pending M n s'"
  by (auto split: prod.splits option.splits)

lemma pending_0D: "pending M 0 s \<Longrightarrow> \<exists>s'. sim_execute_once M s = (s', None)"
  by (auto split: prod.splits option.splits)

lemma collect_steps_Suc_Some:
  "execute_once M F h = (h', Inr (Some st)) \<Longrightarrow>
   collect_steps M F (Suc n) h =
     (case collect_steps M F n h' of
        (h'', Inl e) \<Rightarrow> (h'', Inl e)
      | (h'', Inr steps) \<Rightarrow> (h'', Inr (st # steps)))"
  by simp

lemma collect_steps_Suc_Inl:
  "execute_once M F h = (h', Inl e) \<Longrightarrow> collect_steps M F (Suc n) h = (h', Inl e)"
  by simp

lemma collect_steps_Suc_None:
  "execute_once M F h = (h', Inr None) \<Longrightarrow> collect_steps M F (Suc n) h = (h', Inr [])"
  by simp

lemma loop_unbounded:
  "m \<le> 0 \<Longrightarrow> pending M n (engine (simulator h)) \<Longrightarrow>
   execute_loop M F m h steps i (Some st) =
     Some (case collect_steps M F (Suc n) h of
             (h', Inl e) \<Rightarrow> (h', Inl e)
           | (h', Inr ss) \<Rightarrow> (h', Inr (steps @ st # ss)))"
proof (induction n arbitrary: h steps i st)
  case 0
  from pending_0D [OF 0(2)]
  obtain s where s: "sim_execute_once M (engine (simulator h)) = (s, None)"
    by blast
  with 0(1) show ?case
    by (simp add: execute_loop_Some execute_once_None split: prod.splits option.splits)
next
  case (Suc n)
  from pending_SucD [OF Suc.prems(2)]
  obtain s st' where s: "sim_execute_once M (engine (simulator h)) = (s, Some st')"
    and p: "pending M n s"
    by blast
  obtain h' r where eo: "execute_once M F h = (h', r)"
    by (cases "execute_once M F h")
  have sub: "engine (simulator h') = s"
    using execute_once_subject [of M F h] eo s by simp
  show ?case
  proof (cases r)
    case (Inl e)
    with eo Suc.prems(1) show ?thesis
      by (simp add: execute_loop_Some)
  next
    case (Inr step')
    with eo s have step': "step' = Some st'"
      using execute_once_value [of M F h step'] by simp
    have "execute_loop M F m h steps i (Some st)
        = execute_loop M F m h' (steps @ [st]) (i + 1) (Some st')"
      using eo Inr step' Suc.prems(1) by (simp add: execute_loop_Some)
    also have "\<dots> = Some (case collect_steps M F (Suc n) h' of
             (h'', Inl e) \<Rightarrow> (h'', Inl e)
           | (h'', Inr ss) \<Rightarrow> (h'', Inr (steps @ st # st' # ss)))"
      using Suc.IH [OF Suc.prems(1), of h'] p sub by (simp del: collect_steps.simps)
    finally show ?thesis
      using eo Inr step'
      by (auto simp del: collect_steps.simps simp add: collect_steps_Suc_Some [of M F h h' st']
          split: prod.splits sum.splits)
  qed
qed

lemma execute_unbounded:
  assumes "m \<le> 0" and "pending M n (engine (simulator h))"
  shows "execute M F m h = Some (collect_steps M F (Suc n) h)"
proof (cases n)
  case 0
  with assms(2) have "pending M 0 (engine (simulator h))"
    by simp
  from pending_0D [OF this]
  obtain s where s: "sim_execute_once M (engine (simulator h)) = (s, None)"
    by blast
  then show ?thesis
    using 0 by (simp add: execute_def execute_once_None split: prod.splits option.splits)
next
  case (Suc k)
  with assms(2) have "pending M (Suc k) (engine (simulator h))"
    by simp
  from pending_SucD [OF this]
  obtain s st where s: "sim_execute_once M (engine (simulator h)) = (s, Some st)"
    and p: "pending M k s"
    by blast
  obtain h' r where eo: "execute_once M F h = (h', r)"
    by (cases "execute_once M F h")
  have sub: "engine (simulator h') = s"
    using execute_once_subject [of M F h] eo s by simp
  show ?thesis
  proof (cases r)
    case (Inl e)
    with eo show ?thesis by (simp add: execute_def)
  next
    case (Inr step')
    with eo s have step': "step' = Some st"
      using execute_once_value [of M F h step'] by simp
    have "execute M F m h = execute_loop M F m h' [] 0 (Some st)"
      using eo Inr step' by (simp add: execute_def)
    also have "\<dots> = Some (case collect_steps M F (Suc k) h' of
             (h'', Inl e) \<Rightarrow> (h'', Inl e)
           | (h'', Inr ss) \<Rightarrow> (h'', Inr (st # ss)))"
      using loop_unbounded [OF assms(1), of M k h'] p sub by (simp del: collect_steps.simps)
    finally show ?thesis
      using eo Inr step' Suc
      by (auto simp del: collect_steps.simps simp add: collect_steps_Suc_Some [of M F h h' st]
          split: prod.splits sum.splits)
  qed
qed

lemma execute_tester_deliveries:
  "ev' \<noteq> ev \<Longrightarrow>
   map (\<lambda>t. count_list (received t) ev') (fst (execute_tester M F sim step ev ctx ts))
     = map (\<lambda>t. count_list (received t) ev') ts"
proof (induction ts)
  case Nil
  then show ?case by simp
next
  case (Cons t ts)
  have "count_list (received (fst (relay_one M ev ctx t))) ev' = count_list (received t) ev'"
    using Cons.prems by (simp add: received_relay_one)
  with Cons show ?case
    by (auto simp: execute_tester_Cons simp del: execute_tester.simps(2)
        split: prod.splits option.splits)
qed

lemma execute_once_Some_deliveries:
  assumes "sim_execute_once M (engine (simulator h)) = (s, Some st)"
  shows "deliveries (Event ''stop'') (fst (execute_once M F h)) = deliveries (Event ''stop'') h"
proof -
  have "Event ''stop'' \<noteq> Event ''step''" by simp
  from execute_tester_deliveries [OF this, of M F "(simulator h)\<lparr>engine := s\<rparr>" "Some st"
      "create_context M ((simulator h)\<lparr>engine := s\<rparr>) (Some st)" "testers h"]
  show ?thesis
    by (auto simp: execute_once_Some [OF assms] deliveries_def split: prod.splits)
qed

lemma collect_steps_no_stop:
  "pending M n (engine (simulator h)) \<Longrightarrow> k \<le> n \<Longrightarrow>
   deliveries (Event ''stop'') (fst (collect_steps M F k h)) = deliveries (Event ''stop'') h"
proof (induction k arbitrary: n h)
  case 0
  then show ?case by simp
next
  case (Suc k)
  then obtain n' where n: "n = Suc n'" and kn: "k \<le> n'"
    by (cases n) auto
  from Suc.prems(1) n have "pending M (Suc n') (engine (simulator h))"
    by simp
  from pending_SucD [OF this]
  obtain s st where s: "sim_execute_once M (engine (simulator h)) = (s, Some st)"
    and p: "pending M n' s"
    by blast
  obtain h' r where eo: "execute_once M F h = (h', r)"
    by (cases "execute_once M F h")
  have sub: "engine (simulator h') = s"
    using execute_once_subject [of M F h] eo s by simp
  have d: "deliveries (Event ''stop'') h' = deliveries (Event ''stop'') h"
    using execute_once_Some_deliveries [OF s, of F] eo by simp
  show ?case
  proof (cases r)
    case (Inl e)
    with eo d show ?thesis by simp
  next
    case (Inr step')
    with eo s have step': "step' = Some st"
      using execute_once_value [of M F h step'] by simp
    have "deliveries (Event ''stop'') (fst (collect_steps M F k h')) = deliveries (Event ''stop'') h'"
      using Suc.IH [of n' h'] p sub kn by simp
    with d eo Inr step' show ?thesis
      by (auto simp del: collect_steps.simps simp add: collect_steps_Suc_Some [of M F h h' st]
          split: prod.splits sum.splits)
  qed
qed

lemma collect_steps_length:
  "pending M n (engine (simulator h)) \<Longrightarrow> k \<le> n \<Longrightarrow>
   collect_steps M F k h = (h', Inr steps) \<Longrightarrow>
   length steps = k \<and> pending M (n - k) (engine (simulator h'))"
proof (induction k arbitrary: n h steps)
  case 0
  then show ?case by simp
next
  case (Suc k)
  then obtain n' where n: "n = Suc n'" and kn: "k \<le> n'"
    by (cases n) auto
  from Suc.prems(1) n have "pending M (Suc n') (engine (simulator h))"
    by simp
  from pending_SucD [OF this]
  obtain s st where s: "sim_execute_once M (engine (simulator h)) = (s, Some st)"
    and p: "pending M n' s"
    by blast
  obtain h1 r where eo: "execute_once M F h = (h1, r)"
    by (cases "execute_once M F h")
  have sub: "engine (simulator h1) = s"
    using execute_once_subject [of M F h] eo s by simp
  from Suc.prems(3) eo obtain step' where r: "r = Inr step'"
    by (cases r) auto
  with eo s have step': "step' = Some st"
    using execute_once_value [of M F h step'] by simp
  from Suc.prems(3) eo r step' obtain ss where cs: "collect_steps M F k h1 = (h', Inr ss)"
    and steps: "steps = st # ss"
    by (auto split: prod.splits sum.splits)
  from Suc.IH [of n' h1 ss] p sub kn cs have "length ss = k \<and> pending M (n' - k) (engine (simulator h'))"
    by simp
  with steps n show ?case by simp
qed

lemma loop_nonpositive_le:
  assumes run: "execute_loop M F m h steps i step = Some r" and m': "m' \<le> 0"
  shows "m \<le> 0 \<longrightarrow> (\<forall>i'. execute_loop M F m' h steps i' step = Some r)"
proof (rule execute_loop.raw_induct
    [where P = "\<lambda>M F m h steps i step r.
       m \<le> 0 \<longrightarrow> (\<forall>i'. execute_loop M F m' h steps i' step = Some r)", OF _ run])
  fix loop :: "('a, 'b, 'c) simulator_class \<Rightarrow> 'c formatter \<Rightarrow> int \<Rightarrow> 'a state_chart_tester \<Rightarrow>
     macro_step list \<Rightarrow> int \<Rightarrow> macro_step option \<Rightarrow>
     ('a state_chart_tester \<times> (error + macro_step list)) option"
  fix M F m h steps i step r
  assume IH: "\<And>M F m h steps i step r. loop M F m h steps i step = Some r \<Longrightarrow>
      m \<le> 0 \<longrightarrow> (\<forall>i'. execute_loop M F m' h steps i' step = Some r)"
  assume body: "(case step of
        None \<Rightarrow> Some (h, Inr steps)
      | Some st \<Rightarrow>
          (if m > 0 \<and> i + 1 = m then Some (h, Inr (steps @ [st]))
           else
             (case execute_once M F h of
                (h', Inl e) \<Rightarrow> Some (h', Inl e)
              | (h', Inr step') \<Rightarrow> loop M F m h' (steps @ [st]) (i + 1) step'))) = Some r"
  show "m \<le> 0 \<longrightarrow> (\<forall>i'. execute_loop M F m' h steps i' step = Some r)"
  proof (intro impI allI)
    fix i'
    assume m: "m \<le> 0"
    show "execute_loop M F m' h steps i' step = Some r"
    proof (cases step)
      case None
      with body show ?thesis by simp
    next
      case (Some st)
      obtain h' x where eo: "execute_once M F h = (h', x)"
        by (cases "execute_once M F h")
      show ?thesis
      proof (cases x)
        case (Inl e)
        with body m m' Some eo show ?thesis
          by (simp add: execute_loop_Some)
      next
        case (Inr step')
        with body m Some eo have "loop M F m h' (steps @ [st]) (i + 1) step' = Some r"
          by simp
        from IH [OF this] m
        have "execute_loop M F m' h' (steps @ [st]) (i' + 1) step' = Some r"
          by blast
        with m' Some eo Inr show ?thesis
          by (simp add: execute_loop_Some)
      qed
    qed
  qed
qed

lemma loop_nonpositive:
  assumes "m \<le> 0" and "m' \<le> 0"
  shows "execute_loop M F m h steps i step = execute_loop M F m' h steps i' step"
proof (cases "execute_loop M F m h steps i step")
  case (Some r)
  with loop_nonpositive_le [OF Some assms(2)] assms(1) show ?thesis by simp
next
  case None
  show ?thesis
  proof (cases "execute_loop M F m' h steps i' step")
    case None
    with \<open>execute_loop M F m h steps i step = None\<close> show ?thesis by simp
  next
    case (Some r)
    from loop_nonpositive_le [OF Some assms(1)] assms(2) None show ?thesis by simp
  qed
qed

lemma execute_nonpositive:
  assumes "m \<le> 0"
  shows "execute M F m h = execute M F (- 1) h"
proof -
  have "execute_loop M F m h' [] 0 step = execute_loop M F (- 1) h' [] 0 step" for h' step
    by (rule loop_nonpositive [OF assms]) simp
  then show ?thesis
    by (simp add: execute_def split: prod.splits sum.splits)
qed

lemma collect_steps_all:
  "pending M n (engine (simulator h)) \<Longrightarrow> collect_steps M F (Suc n) h = (h', Inr steps) \<Longrightarrow>
   length steps = n"
proof (induction n arbitrary: h steps)
  case 0
  from pending_0D [OF 0(1)]
  obtain s where s: "sim_execute_once M (engine (simulator h)) = (s, None)"
    by blast
  with 0(2) show ?case
    by (auto simp: execute_once_None split: prod.splits option.splits sum.splits)
next
  case (Suc n)
  from pending_SucD [OF Suc.prems(1)]
  obtain s st where s: "sim_execute_once M (engine (simulator h)) = (s, Some st)"
    and p: "pending M n s"
    by blast
  obtain h1 r where eo: "execute_once M F h = (h1, r)"
    by (cases "execute_once M F h")
  have sub: "engine (simulator h1) = s"
    using execute_once_subject [of M F h] eo s by simp
  from Suc.prems(2) eo obtain step' where r: "r = Inr step'"
    by (cases r) (auto simp: collect_steps_Suc_Inl simp del: collect_steps.simps)
  with eo s have step': "step' = Some st"
    using execute_once_value [of M F h step'] by simp
  from Suc.prems(2) eo r step' obtain ss where cs: "collect_steps M F (Suc n) h1 = (h', Inr ss)"
    and steps: "steps = st # ss"
    by (auto simp: collect_steps_Suc_Some [of M F h h1 st] simp del: collect_steps.simps
        split: prod.splits sum.splits)
  from Suc.IH [of h1 ss] p sub cs have "length ss = n"
    by simp
  with steps show ?case by simp
qed

text \<open>
  Claim C2. Every tester is claimed to receive exactly \<open>start\<close>, one \<open>step\<close> per step of
  the subject, then \<open>stop\<close>, with no extra delivery. With two testers, a scenario of
  one event and a subject that makes one step, construction followed by \<open>execute()\<close>
  returns the step normally, and each tester has received \<open>start\<close>, \<open>step\<close>, and then
  \<open>stop\<close> twice: the run ends in \<open>stop()\<close>, which relays \<open>stop\<close> once per tester to all
  the testers.
\<close>

theorem lifecycle_with_two_testers:
  "(case init Scripted plain (scripted_obj ''subject'' [enter ''s1''] [] [])
           [scripted_obj ''t1'' [] [] [''stop''], scripted_obj ''t2'' [] [] [''stop'']]
           [Event ''go''] of
      (h, r) \<Rightarrow>
        (r, received (simulator h),
         map_option (\<lambda>(h', r'). (map received (testers h'), r')) (execute Scripted plain (- 1) h)))
   = (None, [Event ''go''],
      Some ([[Event ''start'', Event ''step'', Event ''stop'', Event ''stop''],
             [Event ''start'', Event ''step'', Event ''stop'', Event ''stop'']],
            Inr [enter ''s1'']))"
  by code_simp

text \<open>
  Claim C7. With a positive bound, \<open>execute(max_steps)\<close> returns, and does what calling
  \<open>execute_once\<close> at most \<open>max_steps\<close> times does, collecting every step and stopping
  at the first call that returns no step. When the subject has at least \<open>max_steps\<close>
  pending steps, the call delivers no \<open>stop\<close> to any tester (\<open>stop()\<close> is not invoked);
  if it returns normally it returns exactly \<open>max_steps\<close> steps and leaves the subject
  with the remaining pending steps, and a following \<open>execute()\<close> with the default bound
  makes one call of \<open>execute_once\<close> per remaining step and one more, in which the
  subject returns no step and \<open>stop()\<close> is invoked.
\<close>

theorem execute_with_bound:
  assumes "0 < max_steps"
  shows "execute M F max_steps h = Some (collect_steps M F (nat max_steps) h)
     \<and> (pending M n (engine (simulator h)) \<longrightarrow> nat max_steps \<le> n \<longrightarrow>
          deliveries (Event ''stop'') (fst (collect_steps M F (nat max_steps) h))
            = deliveries (Event ''stop'') h
          \<and> (\<forall>h' steps. collect_steps M F (nat max_steps) h = (h', Inr steps) \<longrightarrow>
                length steps = nat max_steps
                \<and> pending M (n - nat max_steps) (engine (simulator h'))
                \<and> execute M F (- 1) h'
                    = Some (collect_steps M F (Suc (n - nat max_steps)) h')))"
proof (intro conjI impI allI)
  show "execute M F max_steps h = Some (collect_steps M F (nat max_steps) h)"
    by (rule execute_bounded [OF assms])
next
  assume "pending M n (engine (simulator h))" and "nat max_steps \<le> n"
  then show "deliveries (Event ''stop'') (fst (collect_steps M F (nat max_steps) h))
      = deliveries (Event ''stop'') h"
    by (rule collect_steps_no_stop)
next
  fix h' steps
  assume p: "pending M n (engine (simulator h))" and le: "nat max_steps \<le> n"
    and cs: "collect_steps M F (nat max_steps) h = (h', Inr steps)"
  from collect_steps_length [OF p le cs]
  show "length steps = nat max_steps" by simp
next
  fix h' steps
  assume p: "pending M n (engine (simulator h))" and le: "nat max_steps \<le> n"
    and cs: "collect_steps M F (nat max_steps) h = (h', Inr steps)"
  from collect_steps_length [OF p le cs]
  show "pending M (n - nat max_steps) (engine (simulator h'))" by simp
next
  fix h' steps
  assume p: "pending M n (engine (simulator h))" and le: "nat max_steps \<le> n"
    and cs: "collect_steps M F (nat max_steps) h = (h', Inr steps)"
  from collect_steps_length [OF p le cs]
  have "pending M (n - nat max_steps) (engine (simulator h'))" by simp
  then show "execute M F (- 1) h' = Some (collect_steps M F (Suc (n - nat max_steps)) h')"
    by (rule execute_unbounded [rotated]) simp
qed

lemma five_steps_pending: "pending Scripted 5 (engine (simulator five_steps))"
  by code_simp

lemma five_steps_first:
  "collect_steps Scripted plain (nat 1) five_steps
     = (fst (collect_steps Scripted plain (nat 1) five_steps), Inr [enter ''s1''])"
  by code_simp

lemma five_steps_first_received:
  "map received (testers (fst (collect_steps Scripted plain (nat 1) five_steps)))
     = [[Event ''start'', Event ''step'']]"
  by code_simp

lemma five_steps_rest:
  "(case collect_steps Scripted plain (Suc (5 - nat 1))
           (fst (collect_steps Scripted plain (nat 1) five_steps)) of
      (h, r) \<Rightarrow> (map received (testers h), r))
   = ([[Event ''start'', Event ''step'', Event ''step'', Event ''step'', Event ''step'',
        Event ''step'', Event ''stop'']],
      Inr [enter ''s2'', enter ''s3'', enter ''s4'', enter ''s5''])"
  by code_simp

text \<open>
  The example of the claim: the subject has five pending steps. \<open>execute(1)\<close> returns the
  first step and the tester has received \<open>start\<close> and one \<open>step\<close>; the following
  \<open>execute()\<close> returns the four other steps and the tester has then received \<open>stop\<close>.
\<close>

theorem execute_with_bound_witness:
  "\<exists>h1. execute Scripted plain 1 five_steps = Some (h1, Inr [enter ''s1''])
     \<and> map received (testers h1) = [[Event ''start'', Event ''step'']]
     \<and> map_option (\<lambda>(h2, r). (map received (testers h2), r)) (execute Scripted plain (- 1) h1)
         = Some ([[Event ''start'', Event ''step'', Event ''step'', Event ''step'',
                   Event ''step'', Event ''step'', Event ''stop'']],
                 Inr [enter ''s2'', enter ''s3'', enter ''s4'', enter ''s5''])"
proof -
  let ?h1 = "fst (collect_steps Scripted plain (nat 1) five_steps)"
  have pos: "0 < (1::int)" by simp
  have le: "nat 1 \<le> (5::nat)" by simp
  note t = execute_with_bound [OF pos, of Scripted plain five_steps 5]
  have e1: "execute Scripted plain 1 five_steps
      = Some (collect_steps Scripted plain (nat 1) five_steps)"
    by (rule t [THEN conjunct1])
  note cut = t [THEN conjunct2, rule_format, OF five_steps_pending le]
  note after = cut [THEN conjunct2, rule_format, OF five_steps_first]
  have e2: "execute Scripted plain (- 1) ?h1
      = Some (collect_steps Scripted plain (Suc (5 - nat 1)) ?h1)"
    by (rule after [THEN conjunct2, THEN conjunct2])
  have a: "execute Scripted plain 1 five_steps = Some (?h1, Inr [enter ''s1''])"
    unfolding e1 using five_steps_first by simp
  have b: "map_option (\<lambda>(h2, r). (map received (testers h2), r))
        (execute Scripted plain (- 1) ?h1)
      = Some ([[Event ''start'', Event ''step'', Event ''step'', Event ''step'',
                Event ''step'', Event ''step'', Event ''stop'']],
              Inr [enter ''s2'', enter ''s3'', enter ''s4'', enter ''s5''])"
    unfolding e2 using five_steps_rest by (simp add: case_prod_beta)
  show ?thesis
    by (rule exI [of _ ?h1]) (intro conjI a b five_steps_first_received)
qed

text \<open>
  Claim C10. With any bound that is not positive (\<open>0\<close> as well as the default \<open>-1\<close>),
  \<open>execute\<close> is unbounded: it does what \<open>execute()\<close> with the default bound does, and
  when the subject has \<open>n\<close> pending steps it returns, after one call of \<open>execute_once\<close>
  per pending step and one more in which the subject returns no step; if it returns
  normally it returns all \<open>n\<close> steps.
\<close>

theorem execute_nonpositive_bound:
  assumes "max_steps \<le> 0"
  shows "execute M F max_steps h = execute M F (- 1) h
     \<and> (pending M n (engine (simulator h)) \<longrightarrow>
          execute M F max_steps h = Some (collect_steps M F (Suc n) h)
          \<and> (\<forall>h' steps. collect_steps M F (Suc n) h = (h', Inr steps) \<longrightarrow> length steps = n))"
proof (intro conjI impI allI)
  show "execute M F max_steps h = execute M F (- 1) h"
    by (rule execute_nonpositive [OF assms])
next
  assume "pending M n (engine (simulator h))"
  with assms show "execute M F max_steps h = Some (collect_steps M F (Suc n) h)"
    by (rule execute_unbounded)
next
  fix h' steps
  assume "pending M n (engine (simulator h))"
    and "collect_steps M F (Suc n) h = (h', Inr steps)"
  then show "length steps = n"
    by (rule collect_steps_all)
qed

lemma two_steps_pending: "pending Scripted 2 (engine (simulator two_steps))"
  by code_simp

lemma two_steps_run:
  "(case collect_steps Scripted plain (Suc 2) two_steps of
      (h, r) \<Rightarrow> (map received (testers h), r))
   = ([[Event ''start'', Event ''step'', Event ''step'', Event ''stop'']],
      Inr [enter ''s1'', enter ''s2''])"
  by code_simp

text \<open>
  \<open>execute(0)\<close> on a subject with two pending steps returns both steps, and the tester
  has received \<open>stop\<close>.
\<close>

theorem execute_nonpositive_bound_witness:
  "map_option (\<lambda>(h, r). (map received (testers h), r)) (execute Scripted plain 0 two_steps)
     = Some ([[Event ''start'', Event ''step'', Event ''step'', Event ''stop'']],
             Inr [enter ''s1'', enter ''s2''])
   \<and> execute Scripted plain 0 two_steps = execute Scripted plain (- 1) two_steps"
proof -
  have le: "(0::int) \<le> 0" by simp
  note t = execute_nonpositive_bound [OF le, of Scripted plain two_steps 2]
  have e: "execute Scripted plain 0 two_steps = Some (collect_steps Scripted plain (Suc 2) two_steps)"
    by (rule t [THEN conjunct2, rule_format, OF two_steps_pending, THEN conjunct1])
  have a: "execute Scripted plain 0 two_steps = execute Scripted plain (- 1) two_steps"
    by (rule t [THEN conjunct1])
  have b: "map_option (\<lambda>(h, r). (map received (testers h), r))
        (execute Scripted plain 0 two_steps)
      = Some ([[Event ''start'', Event ''step'', Event ''step'', Event ''stop'']],
              Inr [enter ''s1'', enter ''s2''])"
    unfolding e using two_steps_run by (simp add: case_prod_beta)
  show ?thesis
    by (intro conjI a b)
qed

section \<open>\<open>build_tester\<close>\<close>
































end
